theory Spec2Isabelle
  imports Main "HOL-Library.Char_ord" "HOL-Library.List_Lexorder"
begin

section \<open>Values and data model\<close>

text \<open>
  The comment service works on JavaScript objects. A property of an object is
  either absent (\<open>undefined\<close>), \<open>null\<close>, or holds a value; the type \<open>'a js\<close> keeps
  the three apart, since the source tests them (\<open>c.replies || []\<close>,
  \<open>if (recipientId)\<close>, \<open>!comment.spam\<close>) and the Joi schema treats them differently.
\<close>

datatype 'a js = Undefined | Null | Val 'a

text \<open>JavaScript truthiness of a boolean property: only \<open>true\<close> is truthy.\<close>

fun truthy :: "bool js \<Rightarrow> bool" where
  "truthy (Val b) = b"
| "truthy Undefined = False"
| "truthy Null = False"

text \<open>JavaScript truthiness of a string property: the non-empty strings.\<close>

fun truthy_str :: "string js \<Rightarrow> bool" where
  "truthy_str (Val s) = (s \<noteq> [])"
| "truthy_str Undefined = False"
| "truthy_str Null = False"

text \<open>\<open>x || []\<close> for a property that holds an array when it holds anything.\<close>

fun or_empty :: "'a list js \<Rightarrow> 'a list" where
  "or_empty (Val xs) = xs"
| "or_empty Undefined = []"
| "or_empty Null = []"

record author_arg =
  name :: "string js"
  email :: "string js"
  website :: "string js"

text \<open>
  The properties the caller supplies and the object spread \<open>...comment\<close> copies
  into the stored comment (\<open>recipient_path\<close> is deleted before the spread).
\<close>

record comment_content =
  post_id :: "string js"
  author :: "author_arg js"
  content :: "string js"
  user_host_address :: "string js"
  user_agent :: "string js"
  spam :: "bool js"

text \<open>
  The argument of \<open>createComment\<close>. The source receives \<open>recipient_path\<close> as a
  string and reads it with \<open>JSON.parse\<close> as an array of the document id followed
  by the indices into the nested \<open>replies\<close> arrays; the model holds the parsed
  array, with integer indices.
\<close>

record comment_arg = comment_content +
  recipient_path :: "(string \<times> int list) js"

text \<open>
  A stored comment: the copied properties, the three synthesized ones, and \<open>doc_id\<close>,
  the property \<open>id\<close> that the listing functions add to a root comment from the
  document's \<open>_id\<close>.
\<close>

record cfields = comment_content +
  comment_id :: string
  approved :: bool
  published_at :: string
  doc_id :: "string js"

datatype comment = Comment (props: cfields) (replies: "comment list js")

text \<open>A document of the comments index: \<open>_id\<close> and \<open>_source\<close>.\<close>

record hit =
  hit_id :: string
  hit_source :: comment

type_synonym store = "hit list"

section \<open>Validation: the Joi schema \<open>CreateCommentArgSchema\<close>\<close>

text \<open>
  A Joi validation error carries a list of details, each with the path of the offending
  key and the kind of the violation.
\<close>

datatype joi_kind = AnyRequired | AnyEmpty | StringBase | StringEmail | ObjectBase

type_synonym violation = "string list \<times> joi_kind"

datatype error = ValidationError "violation list" | NotFound | TypeError

text \<open>\<open>Joi.string().required()\<close>: a present, non-null, non-empty string.\<close>

fun joi_string_required :: "string list \<Rightarrow> string js \<Rightarrow> violation list" where
  "joi_string_required p Undefined = [(p, AnyRequired)]"
| "joi_string_required p Null = [(p, StringBase)]"
| "joi_string_required p (Val s) = (if s = [] then [(p, AnyEmpty)] else [])"

text \<open>
  \<open>Joi.string().email().required()\<close>; whether a string is an address is decided by
  Joi's address checker, a parameter here.
\<close>

fun joi_email_required :: "(string \<Rightarrow> bool) \<Rightarrow> string list \<Rightarrow> string js \<Rightarrow> violation list" where
  "joi_email_required is_email p Undefined = [(p, AnyRequired)]"
| "joi_email_required is_email p Null = [(p, StringBase)]"
| "joi_email_required is_email p (Val s) =
     (if s = [] then [(p, AnyEmpty)] else if is_email s then [] else [(p, StringEmail)])"

text \<open>\<open>Joi.string().allow('')\<close>: optional, may be empty, not null.\<close>

fun joi_string_allow_empty :: "string list \<Rightarrow> string js \<Rightarrow> violation list" where
  "joi_string_allow_empty p Undefined = []"
| "joi_string_allow_empty p Null = [(p, StringBase)]"
| "joi_string_allow_empty p (Val s) = []"

text \<open>The \<open>author\<close> key: \<open>Joi.object().keys({name, email, website}).required()\<close>.\<close>

fun joi_author :: "(string \<Rightarrow> bool) \<Rightarrow> author_arg js \<Rightarrow> violation list" where
  "joi_author is_email Undefined = [([''author''], AnyRequired)]"
| "joi_author is_email Null = [([''author''], ObjectBase)]"
| "joi_author is_email (Val a) =
     joi_string_required [''author'', ''name''] (name a) @
     joi_email_required is_email [''author'', ''email''] (email a) @
     joi_string_allow_empty [''author'', ''website''] (website a)"

text \<open>\<open>required().allow(null)\<close>, of \<open>recipient_path\<close> and of \<open>spam\<close>: present, or null.\<close>

fun joi_required_allow_null :: "string list \<Rightarrow> 'a js \<Rightarrow> violation list" where
  "joi_required_allow_null p Undefined = [(p, AnyRequired)]"
| "joi_required_allow_null p Null = []"
| "joi_required_allow_null p (Val v) = []"

text \<open>Every violation of the schema, in the order of the schema's keys.\<close>

definition schema_violations :: "(string \<Rightarrow> bool) \<Rightarrow> comment_arg \<Rightarrow> violation list" where
  "schema_violations is_email c =
     joi_required_allow_null [''recipient_path''] (recipient_path c) @
     joi_string_required [''post_id''] (post_id c) @
     joi_author is_email (author c) @
     joi_string_required [''content''] (content c) @
     joi_string_required [''user_host_address''] (user_host_address c) @
     joi_string_required [''user_agent''] (user_agent c) @
     joi_required_allow_null [''spam''] (spam c)"

text \<open>
  \<open>Joi.validate(value, schema, options)\<close>. With the option \<open>abortEarly\<close> the
  validation stops at the first violation; without it all are collected. The result's
  \<open>error\<close> is null (here the empty list) when there is none.
\<close>

definition joi_validate :: "bool \<Rightarrow> (string \<Rightarrow> bool) \<Rightarrow> comment_arg \<Rightarrow> violation list" where
  "joi_validate abortEarly is_email c =
     (if abortEarly then take 1 (schema_violations is_email c)
      else schema_violations is_email c)"

section \<open>The document store\<close>

text \<open>
  The index is the list of its documents. \<open>esClient.get\<close> rejects with the client's
  not-found error when no document has the id.
\<close>

definition es_get :: "store \<Rightarrow> string \<Rightarrow> error + hit" where
  "es_get st i = (case find (\<lambda>h. hit_id h = i) st of None \<Rightarrow> Inl NotFound | Some h \<Rightarrow> Inr h)"

text \<open>
  \<open>esClient.update\<close> with \<open>body: {doc: d}\<close>, where \<open>d\<close> is the whole document as
  read and then changed: the stored source becomes \<open>d\<close>.
\<close>

definition es_update :: "store \<Rightarrow> string \<Rightarrow> comment \<Rightarrow> store" where
  "es_update st i d = map (\<lambda>h. if hit_id h = i then h\<lparr>hit_source := d\<rparr> else h) st"

text \<open>
  \<open>esClient.index\<close> without an id: the index gives the document an id of its own
  choice (the argument \<open>new_id\<close>). The response of the index operation names the
  document and tells what was done (\<open>_index\<close>, \<open>_id\<close>, \<open>_version\<close>, \<open>result\<close>); unlike
  the responses of \<open>get\<close> and \<open>search\<close> it does not carry the document's source, so
  \<open>_source\<close> of the response is \<open>undefined\<close>.
\<close>

record index_response =
  resp_id :: string
  resp_source :: "comment js"

definition es_index :: "store \<Rightarrow> string \<Rightarrow> comment \<Rightarrow> index_response \<times> store" where
  "es_index st new_id d =
     (\<lparr>resp_id = new_id, resp_source = Undefined\<rparr>, st @ [\<lparr>hit_id = new_id, hit_source = d\<rparr>])"

section \<open>createComment\<close>

text \<open>
  What the operation takes from its environment: \<open>uid(12)\<close>, the clock
  (\<open>new Date().toISOString()\<close>), the id the index assigns to a new document, and
  Joi's address checker.
\<close>

record env =
  uid12 :: string
  now_iso :: string
  es_auto_id :: string
  is_email :: "string \<Rightarrow> bool"

text \<open>The object \<open>body\<close>: the spread of the argument and the synthesized properties.\<close>

definition comment_body :: "env \<Rightarrow> comment_arg \<Rightarrow> comment" where
  "comment_body e c =
     Comment \<lparr>post_id = post_id c, author = author c, content = content c,
              user_host_address = user_host_address c, user_agent = user_agent c,
              spam = spam c,
              comment_id = uid12 e, approved = (\<not> truthy (spam c)),
              published_at = now_iso e, doc_id = Undefined\<rparr>
       Undefined"

text \<open>
  The variable \<open>res\<close> of the source refers to a node inside the document
  \<open>resp._source\<close>, which the source then changes in place through \<open>res\<close>. The model
  keeps the document and the address of the node in it: the indices from the root.
  Reading through \<open>res\<close> is \<open>node_at\<close>, writing through it is \<open>modify_at\<close>. The value
  of \<open>res\<close> is \<open>Val a\<close> for the node at address \<open>a\<close>, and \<open>Undefined\<close> after an index
  outside the array.
\<close>

type_synonym addr = "nat list"

fun node_at :: "comment \<Rightarrow> addr \<Rightarrow> comment js" where
  "node_at c [] = Val c"
| "node_at c (i # p) =
     (case replies c of
        Val rs \<Rightarrow> (if i < length rs then node_at (rs ! i) p else Undefined)
      | Undefined \<Rightarrow> Undefined
      | Null \<Rightarrow> Undefined)"

fun modify_at :: "(comment \<Rightarrow> comment) \<Rightarrow> addr \<Rightarrow> comment \<Rightarrow> comment" where
  "modify_at f [] c = f c"
| "modify_at f (i # p) c =
     (case replies c of
        Val rs \<Rightarrow>
          (if i < length rs then Comment (props c) (Val (rs[i := modify_at f p (rs ! i)]))
           else c)
      | Undefined \<Rightarrow> c
      | Null \<Rightarrow> c)"

text \<open>
  \<open>res.replies[i]\<close>: a TypeError when \<open>res\<close> is \<open>undefined\<close> or has no \<open>replies\<close>;
  \<open>undefined\<close> when \<open>i\<close> is not an index of the array.
\<close>

definition replies_index :: "comment \<Rightarrow> addr js \<Rightarrow> int \<Rightarrow> error + addr js" where
  "replies_index src res i =
     (case res of
        Val a \<Rightarrow>
          (case node_at src a of
             Val n \<Rightarrow>
               (case replies n of
                  Val rs \<Rightarrow>
                    Inr (if 0 \<le> i \<and> nat i < length rs then Val (a @ [nat i]) else Undefined)
                | Undefined \<Rightarrow> Inl TypeError
                | Null \<Rightarrow> Inl TypeError)
           | Undefined \<Rightarrow> Inl TypeError
           | Null \<Rightarrow> Inl TypeError)
      | Undefined \<Rightarrow> Inl TypeError
      | Null \<Rightarrow> Inl TypeError)"

text \<open>The loop \<open>for (var i of repliesIndices) res = res.replies[i]\<close>.\<close>

fun descend :: "comment \<Rightarrow> addr js \<Rightarrow> int list \<Rightarrow> error + addr js" where
  "descend src res [] = Inr res"
| "descend src res (i # is) =
     (case replies_index src res i of
        Inl err \<Rightarrow> Inl err
      | Inr res' \<Rightarrow> descend src res' is)"

text \<open>\<open>res.replies = res.replies || []\<close> and \<open>res.replies.push(body)\<close>, on the node.\<close>

definition init_replies :: "comment \<Rightarrow> comment" where
  "init_replies n = Comment (props n) (Val (or_empty (replies n)))"

definition push_reply :: "comment \<Rightarrow> comment \<Rightarrow> comment" where
  "push_reply body n = Comment (props n) (Val (or_empty (replies n) @ [body]))"

record create_result =
  newComment :: "comment js"
  repliedToComment :: "comment js"

text \<open>
  The operation returns its result or the error it throws, and the store it leaves.
  \<open>Joi.validate\<close> is called without options, and \<open>abortEarly\<close> is true by default.
\<close>

definition createComment :: "env \<Rightarrow> comment_arg \<Rightarrow> store \<Rightarrow> (error + create_result) \<times> store" where
  "createComment e comment st =
     (case joi_validate True (is_email e) comment of
        v # vs \<Rightarrow> (Inl (ValidationError (v # vs)), st)
      | [] \<Rightarrow>
          (let recipientId = recipient_path comment;
               body = comment_body e comment
           in case recipientId of
                Val (documentId, repliesIndices) \<Rightarrow>
                  (case es_get st documentId of
                     Inl err \<Rightarrow> (Inl err, st)
                   | Inr resp \<Rightarrow>
                       (case descend (hit_source resp) (Val []) repliesIndices of
                          Inl err \<Rightarrow> (Inl err, st)
                        | Inr Undefined \<Rightarrow> (Inl TypeError, st)
                        | Inr Null \<Rightarrow> (Inl TypeError, st)
                        | Inr (Val a) \<Rightarrow>
                            (let src1 = modify_at init_replies a (hit_source resp);
                                 src2 = modify_at (push_reply body) a src1
                             in (Inr \<lparr>newComment = Val body, repliedToComment = node_at src2 a\<rparr>,
                                 es_update st documentId src2))))
              | Undefined \<Rightarrow>
                  (let (resp, st') = es_index st (es_auto_id e) body
                   in (Inr \<lparr>newComment = resp_source resp, repliedToComment = Null\<rparr>, st'))
              | Null \<Rightarrow>
                  (let (resp, st') = es_index st (es_auto_id e) body
                   in (Inr \<lparr>newComment = resp_source resp, repliedToComment = Null\<rparr>, st'))))"

text \<open>
  The recipient path as the specification reads it: every index is an index of the
  \<open>replies\<close> sequence at its depth (an absent sequence has no index), and the node the
  path then designates.
\<close>

fun path_in_range :: "comment \<Rightarrow> int list \<Rightarrow> bool" where
  "path_in_range c [] = True"
| "path_in_range c (i # is) =
     (0 \<le> i \<and> nat i < length (or_empty (replies c)) \<and>
      path_in_range (or_empty (replies c) ! nat i) is)"

fun target_node :: "comment \<Rightarrow> int list \<Rightarrow> comment" where
  "target_node c [] = c"
| "target_node c (i # is) = target_node (or_empty (replies c) ! nat i) is"


section \<open>The visibility filter\<close>

lemma size_or_empty_replies: "size_list size (or_empty (replies c)) < size c"
  by (cases c; cases "replies c") auto

lemma size_replies_in_list:
  "c \<in> set cs \<Longrightarrow> size_list size (or_empty (replies c)) < size_list size cs"
  using size_or_empty_replies [of c] size_list_estimation' [of c cs "size c" size] by simp

text \<open>
  \<open>comments.filter(c => c.approved).map(c => ({...c, replies: filterNotApproved(c.replies || [])}))\<close>
\<close>

function filterNotApproved :: "comment list \<Rightarrow> comment list" where
  "filterNotApproved comments =
     map (\<lambda>c. Comment (props c) (Val (filterNotApproved (or_empty (replies c)))))
       (filter (\<lambda>c. approved (props c)) comments)"
  by pat_completeness auto
termination
  by (relation "measure (size_list size)") (auto simp: size_replies_in_list)

declare filterNotApproved.simps [simp del]

section \<open>Listing: getComments and getAllComments\<close>

text \<open>
  A page of a scrolled search: its hits and the cursor (\<open>_scroll_id\<close>) that
  \<open>esClient.scroll\<close> takes to give the next page.
\<close>

record 'c page =
  page_hits :: "hit list"
  scroll_id :: 'c

text \<open>
  The loop of \<open>getComments\<close>, over any scroll operation:
  \<open>while (resp.hits.hits.length) { allComments = allComments.concat(resp.hits.hits); resp = await esClient.scroll(...) }\<close>.
  Nothing in the loop bounds the number of pages, so it is a partial function: it
  returns \<open>None\<close> when the pages never come to an empty one.
\<close>

partial_function (option) getComments_loop ::
  "('c \<Rightarrow> 'c page) \<Rightarrow> 'c page \<Rightarrow> hit list \<Rightarrow> hit list option" where
  "getComments_loop scroll resp allComments =
     (if length (page_hits resp) \<noteq> 0
      then getComments_loop scroll (scroll (scroll_id resp)) (allComments @ page_hits resp)
      else Some allComments)"

text \<open>
  The loop of \<open>getAllComments\<close>:
  \<open>while (resp.hits.hits.length) { resp.hits.hits.forEach(hit => items.push(hit)); resp = await esClient.scroll(...) }\<close>.
\<close>

partial_function (option) getAllComments_loop ::
  "('c \<Rightarrow> 'c page) \<Rightarrow> 'c page \<Rightarrow> hit list \<Rightarrow> hit list option" where
  "getAllComments_loop scroll resp items =
     (if length (page_hits resp) \<noteq> 0
      then getAllComments_loop scroll (scroll (scroll_id resp))
             (foldl (\<lambda>acc hit. acc @ [hit]) items (page_hits resp))
      else Some items)"

text \<open>
  The index's scrolled search: the first page holds the first \<open>n\<close> results, and the
  cursor stands for the results not yet returned; each scroll returns the next
  \<open>n\<close> of them, and an empty page once there are none. The source leaves the page size \<open>n\<close>
  to the index (10 unless configured).
\<close>

definition es_search_scroll :: "nat \<Rightarrow> hit list \<Rightarrow> hit list page" where
  "es_search_scroll n results = \<lparr>page_hits = take n results, scroll_id = drop n results\<rparr>"

definition es_scroll :: "nat \<Rightarrow> hit list \<Rightarrow> hit list page" where
  "es_scroll n rest = \<lparr>page_hits = take n rest, scroll_id = drop n rest\<rparr>"

text \<open>
  The query of \<open>getComments\<close>: \<open>post_id\<close> among \<open>postIds\<close>, \<open>approved\<close> true, and
  \<open>spam\<close> not true; sorted by \<open>published_at\<close>, ascending (an ISO timestamp, compared as
  a string).
\<close>

definition getComments_query :: "string list \<Rightarrow> hit \<Rightarrow> bool" where
  "getComments_query postIds h =
     ((case post_id (props (hit_source h)) of
         Val p \<Rightarrow> p \<in> set postIds
       | Undefined \<Rightarrow> False
       | Null \<Rightarrow> False) \<and>
      approved (props (hit_source h)) \<and>
      spam (props (hit_source h)) \<noteq> Val True)"

definition getComments_results :: "string list \<Rightarrow> store \<Rightarrow> hit list" where
  "getComments_results postIds st =
     sort_key (\<lambda>h. published_at (props (hit_source h))) (filter (getComments_query postIds) st)"

text \<open>\<open>h => ({...h._source, id: h._id})\<close>\<close>

definition with_id :: "hit \<Rightarrow> comment" where
  "with_id h = Comment ((props (hit_source h))\<lparr>doc_id := Val (hit_id h)\<rparr>) (replies (hit_source h))"

definition getComments :: "nat \<Rightarrow> string list \<Rightarrow> store \<Rightarrow> comment list option" where
  "getComments n postIds st =
     (case getComments_loop (es_scroll n)
             (es_search_scroll n (getComments_results postIds st)) [] of
        None \<Rightarrow> None
      | Some allComments \<Rightarrow> Some (filterNotApproved (map with_id allComments)))"

text \<open>\<open>getAllComments\<close>: the query \<open>match_all\<close>, no filter on the result.\<close>

definition getAllComments :: "nat \<Rightarrow> store \<Rightarrow> comment list option" where
  "getAllComments n st =
     (case getAllComments_loop (es_scroll n) (es_search_scroll n st) [] of
        None \<Rightarrow> None
      | Some items \<Rightarrow> Some (map with_id items))"

section \<open>deletePostComments\<close>

text \<open>
  \<open>esClient.deleteByQuery\<close> with the filter \<open>term: {post_id: id}\<close>: the documents that
  match are removed, and the response counts them.
\<close>

record delete_response =
  deleted :: nat

definition deletePostComments :: "string \<Rightarrow> store \<Rightarrow> delete_response \<times> store" where
  "deletePostComments i st =
     (\<lparr>deleted = length (filter (\<lambda>h. post_id (props (hit_source h)) = Val i) st)\<rparr>,
      filter (\<lambda>h. post_id (props (hit_source h)) \<noteq> Val i) st)"

section \<open>getStats\<close>

record stats_args =
  startDate :: "string js"
  postId :: "string js"
  interval :: "string js"

text \<open>
  The query: \<open>match_all\<close>, or the filters pushed for a truthy \<open>postId\<close> (the term
  \<open>post_id\<close>) and a truthy \<open>startDate\<close> (the range \<open>published_at >= startDate\<close>, the
  ISO timestamps compared as strings).
\<close>

definition getStats_query :: "stats_args \<Rightarrow> hit \<Rightarrow> bool" where
  "getStats_query a h =
     ((if truthy_str (postId a) then post_id (props (hit_source h)) = postId a else True) \<and>
      (if truthy_str (startDate a)
       then (case startDate a of
               Val d \<Rightarrow> d \<le> published_at (props (hit_source h))
             | Undefined \<Rightarrow> True
             | Null \<Rightarrow> True)
       else True))"

text \<open>\<open>esClient.count\<close>: the number of documents that match.\<close>

definition es_count :: "(hit \<Rightarrow> bool) \<Rightarrow> store \<Rightarrow> nat" where
  "es_count q st = length (filter q st)"

text \<open>
  A bucket of the terms aggregation, and the aggregation itself over the values of the
  field in the matching documents: one bucket per distinct value with the number of
  documents that hold it, the largest counts first (equal counts by ascending key), cut
  to \<open>n\<close> buckets.
\<close>

record bucket =
  key :: string
  doc_count :: nat

definition es_terms_agg :: "nat \<Rightarrow> string list \<Rightarrow> bucket list" where
  "es_terms_agg n terms =
     take n (sort_key (\<lambda>b. - int (doc_count b))
       (map (\<lambda>t. \<lparr>key = t, doc_count = count_list terms t\<rparr>) (sort (remdups terms))))"

text \<open>The values of \<open>post_id\<close> in a list of documents (a document without one has none).\<close>

definition post_id_terms :: "hit list \<Rightarrow> string list" where
  "post_id_terms hs =
     List.map_filter
       (\<lambda>h. case post_id (props (hit_source h)) of
               Val p \<Rightarrow> Some p
             | Undefined \<Rightarrow> None
             | Null \<Rightarrow> None) hs"

text \<open>
  The response of the search of \<open>getStats\<close>: the hits, and the aggregations when the
  response has them. The buckets of the date histogram are left to the index: their
  type is a parameter.
\<close>

record 'h aggregations =
  post_ids_buckets :: "bucket list"
  comments_histogram_buckets :: "'h list"

record 'h search_response =
  resp_hits :: "hit list"
  resp_aggregations :: "'h aggregations js"

text \<open>
  The search of \<open>getStats\<close> on the index: the 10 latest matching documents
  (\<open>size: 10\<close>, sorted by \<open>published_at\<close> descending), the terms aggregation \<open>post_ids\<close>
  on \<open>post_id\<close> with \<open>size: 5\<close>, and the date histogram of the matching documents for
  the interval, computed by the index (\<open>date_histogram\<close>).
\<close>

definition es_search_stats ::
  "(string js \<Rightarrow> hit list \<Rightarrow> 'h list) \<Rightarrow> (hit \<Rightarrow> bool) \<Rightarrow> string js \<Rightarrow> store \<Rightarrow> 'h search_response" where
  "es_search_stats date_histogram q iv st =
     \<lparr>resp_hits = take 10 (rev (sort_key (\<lambda>h. published_at (props (hit_source h))) (filter q st))),
      resp_aggregations =
        Val \<lparr>post_ids_buckets = es_terms_agg 5 (post_id_terms (filter q st)),
             comments_histogram_buckets = date_histogram iv (filter q st)\<rparr>\<rparr>"

text \<open>A post of the blog-post store, with its \<open>id\<close>, and an entry of \<open>mostCommentedPosts\<close>.\<close>

record post =
  post_key :: string
  post_title :: string

record most_commented =
  mc_post :: post
  comments_count :: nat

text \<open>
  \<open>posts.map(p => ({...p, comments_count: _.find(postIdsBuckets, ['key', p.id]).doc_count}))\<close>:
  a TypeError when no bucket has the key of a post (\<open>_.find\<close> returns \<open>undefined\<close>).
\<close>

fun attach_counts :: "bucket list \<Rightarrow> post list \<Rightarrow> error + most_commented list" where
  "attach_counts bs [] = Inr []"
| "attach_counts bs (p # ps) =
     (case find (\<lambda>b. key b = post_key p) bs of
        None \<Rightarrow> Inl TypeError
      | Some b \<Rightarrow>
          (case attach_counts bs ps of
             Inl err \<Rightarrow> Inl err
           | Inr r \<Rightarrow> Inr (\<lparr>mc_post = p, comments_count = doc_count b\<rparr> # r)))"

record 'h stats =
  commentsByDate :: "'h list"
  mostCommentedPosts :: "most_commented list"
  recentComments :: "comment list"
  commentsCount :: nat

text \<open>
  What \<open>getStats\<close> makes of the two responses; \<open>getItemsByIds\<close> is the operation of the
  blog-post service.
\<close>

definition getStats_result ::
  "(string list \<Rightarrow> post list) \<Rightarrow> nat \<Rightarrow> 'h search_response \<Rightarrow> error + 'h stats" where
  "getStats_result getItemsByIds countResp resp =
     (case resp_aggregations resp of
        Val aggs \<Rightarrow>
          (let postIdsBuckets = post_ids_buckets aggs;
               posts = getItemsByIds (map key postIdsBuckets)
           in case attach_counts postIdsBuckets posts of
                Inl err \<Rightarrow> Inl err
              | Inr mostCommented \<Rightarrow>
                  Inr \<lparr>commentsByDate = comments_histogram_buckets aggs,
                       mostCommentedPosts = mostCommented,
                       recentComments = map with_id (resp_hits resp),
                       commentsCount = countResp\<rparr>)
      | Undefined \<Rightarrow>
          Inr \<lparr>commentsByDate = [], mostCommentedPosts = [],
               recentComments = map with_id (resp_hits resp), commentsCount = countResp\<rparr>
      | Null \<Rightarrow>
          Inr \<lparr>commentsByDate = [], mostCommentedPosts = [],
               recentComments = map with_id (resp_hits resp), commentsCount = countResp\<rparr>)"

text \<open>The parameter \<open>interval\<close> has the default \<open>'1d'\<close>.\<close>

definition getStats ::
  "(string list \<Rightarrow> post list) \<Rightarrow> (string js \<Rightarrow> hit list \<Rightarrow> 'h list) \<Rightarrow> stats_args \<Rightarrow> store
     \<Rightarrow> error + 'h stats" where
  "getStats getItemsByIds date_histogram a st =
     (let iv = (case interval a of Undefined \<Rightarrow> Val ''1d'' | Null \<Rightarrow> Null | Val s \<Rightarrow> Val s);
          countResp = es_count (getStats_query a) st;
          resp = es_search_stats date_histogram (getStats_query a) iv st
      in getStats_result getItemsByIds countResp resp)"

text \<open>
  Modelled from the spec: \<open>getItemsByIds\<close> of the blog-post service, whose code is not
  among the sources. The specification has it take post ids and return a sequence of
  posts, joined to the ids of the buckets: for each id the post of the store with that
  id, if there is one.
\<close>

definition getItemsByIds :: "post list \<Rightarrow> string list \<Rightarrow> post list" where
  "getItemsByIds posts ids = List.map_filter (\<lambda>i. find (\<lambda>p. post_key p = i) posts) ids"

section \<open>Example data\<close>

definition ex_author :: author_arg where
  "ex_author = \<lparr>name = Val ''Ann'', email = Val ''ann@example.org'', website = Undefined\<rparr>"

definition ex_props :: "string \<Rightarrow> string \<Rightarrow> bool \<Rightarrow> cfields" where
  "ex_props pid cid appr =
     \<lparr>post_id = Val pid, author = Val ex_author, content = Val ''hello'',
      user_host_address = Val ''10.0.0.1'', user_agent = Val ''agent'',
      spam = Val (\<not> appr), comment_id = cid, approved = appr,
      published_at = ''2019-01-01T00:00:00.000Z'', doc_id = Undefined\<rparr>"

definition ex_env :: env where
  "ex_env = \<lparr>uid12 = ''k3x9q0z7m2p5'', now_iso = ''2019-02-01T10:00:00.000Z'',
             es_auto_id = ''doc2'', is_email = (\<lambda>s. CHR ''@'' \<in> set s)\<rparr>"

definition ex_arg :: "(string \<times> int list) js \<Rightarrow> bool js \<Rightarrow> comment_arg" where
  "ex_arg rp sp =
     \<lparr>post_id = Val ''p1'', author = Val ex_author, content = Val ''a reply'',
      user_host_address = Val ''10.0.0.2'', user_agent = Val ''agent'', spam = sp,
      recipient_path = rp\<rparr>"

text \<open>An argument with two required fields missing.\<close>

definition ex_bad_arg :: comment_arg where
  "ex_bad_arg = (ex_arg Null (Val False))\<lparr>post_id := Undefined, content := Undefined\<rparr>"

text \<open>A thread: a root comment with exactly one reply.\<close>

definition ex_thread :: hit where
  "ex_thread =
     \<lparr>hit_id = ''doc1'',
      hit_source = Comment (ex_props ''p1'' ''root'' True)
                     (Val [Comment (ex_props ''p1'' ''r0'' True) Undefined])\<rparr>"

text \<open>A root comment without replies, as a document of the index.\<close>

definition ex_doc :: "string \<Rightarrow> string \<Rightarrow> bool \<Rightarrow> hit" where
  "ex_doc i pid appr = \<lparr>hit_id = i, hit_source = Comment (ex_props pid i appr) Undefined\<rparr>"

definition ex_posts :: "post list" where
  "ex_posts = [\<lparr>post_key = ''p1'', post_title = ''First''\<rparr>,
               \<lparr>post_key = ''p2'', post_title = ''Second''\<rparr>]"

definition ex_store :: store where
  "ex_store = [ex_doc ''a'' ''p1'' True, ex_doc ''c'' ''p2'' True, ex_doc ''b'' ''p1'' False]"

definition ex_stats_args :: stats_args where
  "ex_stats_args = \<lparr>startDate = Undefined, postId = Undefined, interval = Undefined\<rparr>"

section \<open>Properties of the visibility filter\<close>

lemma filterNotApproved_Nil [simp]: "filterNotApproved [] = []"
  by (subst filterNotApproved.simps) simp

lemma filterNotApproved_Cons [simp]:
  "filterNotApproved (c # cs) =
     (if approved (props c)
      then Comment (props c) (Val (filterNotApproved (or_empty (replies c)))) # filterNotApproved cs
      else filterNotApproved cs)"
  by (subst filterNotApproved.simps, subst (3 4) filterNotApproved.simps) simp

lemma filterNotApproved_append:
  "filterNotApproved (xs @ ys) = filterNotApproved xs @ filterNotApproved ys"
  by (induction xs) simp_all

lemma props_filterNotApproved:
  "map props (filterNotApproved cs) = filter approved (map props cs)"
  by (induction cs) simp_all

text \<open>
  C1. The visibility filter drops a node that is not approved, with its whole subtree
  and whatever the approval of its descendants; it keeps an approved node, with its
  replies replaced by the filtering of its own replies (none when the node has no
  \<open>replies\<close>); and it keeps the order of the surviving siblings: it distributes over
  concatenation, and the surviving siblings are the approved ones in their order.
\<close>

theorem filterNotApproved_visibility:
  "filterNotApproved [] = [] \<and>
   (\<not> approved (props c) \<longrightarrow> filterNotApproved (c # cs) = filterNotApproved cs) \<and>
   (approved (props c) \<longrightarrow>
      filterNotApproved (c # cs) =
        Comment (props c) (Val (filterNotApproved (or_empty (replies c)))) # filterNotApproved cs) \<and>
   filterNotApproved (xs @ ys) = filterNotApproved xs @ filterNotApproved ys \<and>
   map props (filterNotApproved zs) = filter approved (map props zs)"
  by (simp add: filterNotApproved_append props_filterNotApproved)

theorem filterNotApproved_visibility_witness:
  "\<not> approved (props (Comment (ex_props ''p1'' ''a'' False)
        (Val [Comment (ex_props ''p1'' ''b'' True) Undefined]))) \<and>
   approved (props (Comment (ex_props ''p1'' ''c'' True)
        (Val [Comment (ex_props ''p1'' ''d'' False) Undefined,
              Comment (ex_props ''p1'' ''e'' True) Undefined]))) \<and>
   filterNotApproved
     [Comment (ex_props ''p1'' ''a'' False) (Val [Comment (ex_props ''p1'' ''b'' True) Undefined]),
      Comment (ex_props ''p1'' ''c'' True)
        (Val [Comment (ex_props ''p1'' ''d'' False) Undefined,
              Comment (ex_props ''p1'' ''e'' True) Undefined])]
   = [Comment (ex_props ''p1'' ''c'' True)
        (Val [Comment (ex_props ''p1'' ''e'' True) (Val [])])]"
  using filterNotApproved_visibility
    [of "Comment (ex_props ''p1'' ''a'' False) (Val [Comment (ex_props ''p1'' ''b'' True) Undefined])"
        "[Comment (ex_props ''p1'' ''c'' True)
            (Val [Comment (ex_props ''p1'' ''d'' False) Undefined,
                  Comment (ex_props ''p1'' ''e'' True) Undefined])]"]
  by (simp add: ex_props_def)

section \<open>Properties of createComment\<close>

lemma node_at_not_Null [simp]: "node_at src a \<noteq> Null"
  by (induction a arbitrary: src) (auto split: js.splits)

lemma node_at_append:
  "node_at src (a @ b) =
     (case node_at src a of Val n \<Rightarrow> node_at n b | Undefined \<Rightarrow> Undefined | Null \<Rightarrow> Undefined)"
  by (induction a arbitrary: src) (auto split: js.splits)

lemma descend_Undefined:
  "descend src Undefined is = (if is = [] then Inr Undefined else Inl TypeError)"
  by (cases "is") (simp_all add: replies_index_def)

lemma descend_in_range:
  "node_at src a = Val n \<Longrightarrow> path_in_range n is \<Longrightarrow>
     descend src (Val a) is = Inr (Val (a @ map nat is)) \<and>
     node_at src (a @ map nat is) = Val (target_node n is)"
proof (induction "is" arbitrary: a n)
  case Nil
  then show ?case by simp
next
  case (Cons i "is")
  from Cons.prems(2) obtain rs where rs: "replies n = Val rs"
    by (cases "replies n") auto
  with Cons.prems(2) have i: "0 \<le> i" "nat i < length rs"
    and rest: "path_in_range (rs ! nat i) is" by auto
  have step: "replies_index src (Val a) i = Inr (Val (a @ [nat i]))"
    using Cons.prems(1) rs i by (simp add: replies_index_def)
  have at: "node_at src (a @ [nat i]) = Val (rs ! nat i)"
    using Cons.prems(1) rs i by (simp add: node_at_append)
  from Cons.IH [OF at rest] show ?case
    using step rs by simp
qed

lemma descend_out_of_range:
  "node_at src a = Val n \<Longrightarrow> \<not> path_in_range n is \<Longrightarrow>
     descend src (Val a) is = Inl TypeError \<or> descend src (Val a) is = Inr Undefined"
proof (induction "is" arbitrary: a n)
  case Nil
  then show ?case by simp
next
  case (Cons i "is")
  show ?case
  proof (cases "replies n")
    case (Val rs)
    show ?thesis
    proof (cases "0 \<le> i \<and> nat i < length rs")
      case True
      then have step: "replies_index src (Val a) i = Inr (Val (a @ [nat i]))"
        using Cons.prems(1) Val by (simp add: replies_index_def)
      have at: "node_at src (a @ [nat i]) = Val (rs ! nat i)"
        using Cons.prems(1) Val True by (simp add: node_at_append)
      have rest: "\<not> path_in_range (rs ! nat i) is"
        using Cons.prems(2) Val True by simp
      from Cons.IH [OF at rest] show ?thesis using step by simp
    next
      case False
      then have "replies_index src (Val a) i = Inr Undefined"
        using Cons.prems(1) Val by (auto simp add: replies_index_def)
      then show ?thesis by (simp add: descend_Undefined)
    qed
  qed (use Cons.prems(1) in \<open>simp_all add: replies_index_def\<close>)
qed

lemma node_at_modify_at:
  "node_at src a = Val n \<Longrightarrow> node_at (modify_at f a src) a = Val (f n)"
  by (induction a arbitrary: src) (auto split: js.splits if_splits)

lemma modify_at_modify_at:
  "modify_at g a (modify_at f a src) = modify_at (\<lambda>n. g (f n)) a src"
  by (induction a arbitrary: src) (auto split: js.splits)

lemma push_reply_init_replies: "push_reply body (init_replies n) = push_reply body n"
  by (simp add: push_reply_def init_replies_def)

lemma joi_validate_default: "joi_validate True ie c = take 1 (schema_violations ie c)"
  by (simp add: joi_validate_def)

lemma createComment_invalid:
  "schema_violations (is_email e) c = v # vs \<Longrightarrow>
     createComment e c st = (Inl (ValidationError [v]), st)"
  by (simp add: createComment_def joi_validate_default)

lemma valid_recipient_path:
  "schema_violations (is_email e) c = [] \<Longrightarrow> recipient_path c \<noteq> Undefined"
  by (auto simp: schema_violations_def)

lemma createComment_root:
  "schema_violations (is_email e) c = [] \<Longrightarrow> recipient_path c = Null \<Longrightarrow>
     createComment e c st =
       (Inr \<lparr>newComment = Undefined, repliedToComment = Null\<rparr>,
        st @ [\<lparr>hit_id = es_auto_id e, hit_source = comment_body e c\<rparr>])"
  by (simp add: createComment_def Let_def joi_validate_default es_index_def)

lemma createComment_get_fails:
  "schema_violations (is_email e) c = [] \<Longrightarrow> recipient_path c = Val (d, is) \<Longrightarrow>
   es_get st d = Inl err \<Longrightarrow> createComment e c st = (Inl err, st)"
  by (simp add: createComment_def joi_validate_default)

lemma createComment_reply:
  assumes "schema_violations (is_email e) c = []" "recipient_path c = Val (d, is)"
    "es_get st d = Inr h" "path_in_range (hit_source h) is"
  shows "createComment e c st =
       (Inr \<lparr>newComment = Val (comment_body e c),
             repliedToComment =
               Val (push_reply (comment_body e c) (target_node (hit_source h) is))\<rparr>,
        es_update st d
          (modify_at (push_reply (comment_body e c)) (map nat is) (hit_source h)))"
proof -
  have d: "descend (hit_source h) (Val []) is = Inr (Val (map nat is))"
    and t: "node_at (hit_source h) (map nat is) = Val (target_node (hit_source h) is)"
    using descend_in_range [of "hit_source h" "[]" "hit_source h" "is"] assms(4) by simp_all
  show ?thesis
    using assms(1-3) d t
    by (simp add: createComment_def Let_def joi_validate_default modify_at_modify_at
        push_reply_init_replies node_at_modify_at)
qed

lemma createComment_out_of_range:
  assumes "schema_violations (is_email e) c = []" "recipient_path c = Val (d, is)"
    "es_get st d = Inr h" "\<not> path_in_range (hit_source h) is"
  shows "createComment e c st = (Inl TypeError, st)"
  using assms descend_out_of_range [of "hit_source h" "[]" "hit_source h" "is"]
  by (auto simp add: createComment_def Let_def joi_validate_default)

lemma es_get_es_update:
  "es_get st d = Inr h \<Longrightarrow> es_get (es_update st d x) d = Inr (h\<lparr>hit_source := x\<rparr>)"
  by (induction st) (auto simp: es_get_def es_update_def split: option.splits if_splits)

text \<open>
  C3, as the code has it. An input that violates the schema is rejected with a
  ValidationError that reports the first violation in the order of the schema's keys,
  and only that one (\<open>Joi.validate\<close> is called with its default, \<open>abortEarly\<close>);
  nothing is written to the store.
\<close>

theorem createComment_reports_first_violation:
  "schema_violations (is_email e) c = v # vs \<Longrightarrow>
     createComment e c st = (Inl (ValidationError [v]), st)"
  by (rule createComment_invalid)

theorem createComment_reports_first_violation_witness:
  "schema_violations (is_email ex_env) ex_bad_arg =
     ([''post_id''], AnyRequired) # [([''content''], AnyRequired)] \<and>
   createComment ex_env ex_bad_arg [ex_thread] =
     (Inl (ValidationError [([''post_id''], AnyRequired)]), [ex_thread])"
proof -
  have v: "schema_violations (is_email ex_env) ex_bad_arg =
      ([''post_id''], AnyRequired) # [([''content''], AnyRequired)]"
    by (simp add: schema_violations_def ex_bad_arg_def ex_arg_def ex_author_def ex_env_def)
  from createComment_reports_first_violation [OF v] v show ?thesis by simp
qed

text \<open>
  The claim as stated fails: with \<open>post_id\<close> and \<open>content\<close> both missing, two fields
  are violated and the error lists one.
\<close>

theorem createComment_lists_all_violations_counterexample:
  "length (schema_violations (is_email ex_env) ex_bad_arg) = 2 \<and>
   fst (createComment ex_env ex_bad_arg [ex_thread]) \<noteq>
     Inl (ValidationError (schema_violations (is_email ex_env) ex_bad_arg)) \<and>
   fst (createComment ex_env ex_bad_arg [ex_thread]) =
     Inl (ValidationError [([''post_id''], AnyRequired)])"
proof -
  have v: "schema_violations (is_email ex_env) ex_bad_arg =
      ([''post_id''], AnyRequired) # [([''content''], AnyRequired)]"
    by (simp add: schema_violations_def ex_bad_arg_def ex_arg_def ex_author_def ex_env_def)
  show ?thesis
    unfolding v by (simp add: createComment_invalid [OF v])
qed

text \<open>
  C4 at a valid root comment. The new document holds exactly the synthesized node, with
  no \<open>replies\<close>, and \<open>repliedToComment\<close> is null; \<open>newComment\<close> is \<open>resp._source\<close> of the
  index response, which is \<open>undefined\<close>, not the created node.
\<close>

theorem createComment_root_newComment_undefined:
  "createComment ex_env (ex_arg Null (Val False)) [] =
     (Inr \<lparr>newComment = Undefined, repliedToComment = Null\<rparr>,
      [\<lparr>hit_id = ''doc2'',
        hit_source =
          Comment \<lparr>post_id = Val ''p1'', author = Val ex_author, content = Val ''a reply'',
                   user_host_address = Val ''10.0.0.2'', user_agent = Val ''agent'',
                   spam = Val False, comment_id = ''k3x9q0z7m2p5'', approved = True,
                   published_at = ''2019-02-01T10:00:00.000Z'', doc_id = Undefined\<rparr>
            Undefined\<rparr>])"
  by (simp add: createComment_def Let_def joi_validate_def schema_violations_def es_index_def
      comment_body_def ex_arg_def ex_env_def ex_author_def)

text \<open>
  C6, as the code has it. When the document exists and some index of the recipient path
  is outside the \<open>replies\<close> sequence at its depth, the operation fails with the
  TypeError of reading a property of \<open>undefined\<close>, and writes nothing.
\<close>

theorem createComment_index_out_of_range:
  assumes "schema_violations (is_email e) c = []"
    and "recipient_path c = Val (d, is)"
    and "es_get st d = Inr h"
    and "\<not> path_in_range (hit_source h) is"
  shows "createComment e c st = (Inl TypeError, st)"
  using assms by (rule createComment_out_of_range)

lemma ex_arg_valid: "schema_violations (is_email ex_env) (ex_arg (Val p) (Val b)) = []"
  by (simp add: schema_violations_def ex_arg_def ex_author_def ex_env_def)

lemma ex_get_thread: "es_get [ex_thread] ''doc1'' = Inr ex_thread"
  by (simp add: es_get_def ex_thread_def)

theorem createComment_index_out_of_range_witness:
  "schema_violations (is_email ex_env) (ex_arg (Val (''doc1'', [1])) (Val False)) = [] \<and>
   es_get [ex_thread] ''doc1'' = Inr ex_thread \<and>
   \<not> path_in_range (hit_source ex_thread) [1] \<and>
   createComment ex_env (ex_arg (Val (''doc1'', [1])) (Val False)) [ex_thread] =
     (Inl TypeError, [ex_thread])"
proof -
  have r: "\<not> path_in_range (hit_source ex_thread) [1]"
    by (simp add: ex_thread_def)
  have p: "recipient_path (ex_arg (Val (''doc1'', [1])) (Val False)) = Val (''doc1'', [1])"
    by (simp add: ex_arg_def)
  from createComment_index_out_of_range [OF ex_arg_valid p ex_get_thread r]
  show ?thesis using ex_arg_valid ex_get_thread r by simp
qed

theorem createComment_structural_error_counterexample:
  "fst (createComment ex_env (ex_arg (Val (''doc1'', [1])) (Val False)) [ex_thread]) = Inl TypeError \<and>
   fst (createComment ex_env (ex_arg (Val (''doc1'', [1])) (Val False)) [ex_thread]) \<noteq> Inl NotFound"
proof -
  have r: "\<not> path_in_range (hit_source ex_thread) [1]"
    by (simp add: ex_thread_def)
  have p: "recipient_path (ex_arg (Val (''doc1'', [1])) (Val False)) = Val (''doc1'', [1])"
    by (simp add: ex_arg_def)
  show ?thesis
    by (simp add: createComment_out_of_range [OF ex_arg_valid p ex_get_thread r])
qed

text \<open>
  C2, as the code has it. A reply creation whose path resolves to the node \<open>T\<close> returns
  the new node as \<open>newComment\<close>; the document is persisted with the new node appended
  at the end of the replies of \<open>T\<close>; and \<open>repliedToComment\<close> is the node at the address
  of \<open>T\<close> in the persisted document: the properties of \<open>T\<close> with the replies \<open>T\<close> had
  followed by the new node.
\<close>

theorem createComment_reply_returns_updated_target:
  assumes "schema_violations (is_email e) c = []"
    and "recipient_path c = Val (d, is)"
    and "es_get st d = Inr h"
    and "path_in_range (hit_source h) is"
  defines "body \<equiv> comment_body e c"
    and "T \<equiv> target_node (hit_source h) is"
    and "doc' \<equiv> modify_at (push_reply (comment_body e c)) (map nat is) (hit_source h)"
  shows "createComment e c st =
           (Inr \<lparr>newComment = Val body,
                 repliedToComment = Val (Comment (props T) (Val (or_empty (replies T) @ [body])))\<rparr>,
            es_update st d doc') \<and>
         es_get (es_update st d doc') d = Inr (h\<lparr>hit_source := doc'\<rparr>) \<and>
         node_at (hit_source h) (map nat is) = Val T \<and>
         node_at doc' (map nat is) = Val (Comment (props T) (Val (or_empty (replies T) @ [body])))"
proof -
  have t: "node_at (hit_source h) (map nat is) = Val T"
    using descend_in_range [of "hit_source h" "[]" "hit_source h" "is"] assms(4)
    by (simp add: T_def)
  have "createComment e c st =
       (Inr \<lparr>newComment = Val body, repliedToComment = Val (push_reply body T)\<rparr>,
        es_update st d doc')"
    unfolding body_def T_def doc'_def by (rule createComment_reply [OF assms(1-4)])
  moreover have "node_at doc' (map nat is) = Val (push_reply body T)"
    unfolding doc'_def body_def by (rule node_at_modify_at [OF t])
  moreover have "es_get (es_update st d doc') d = Inr (h\<lparr>hit_source := doc'\<rparr>)"
    by (rule es_get_es_update [OF assms(3)])
  ultimately show ?thesis
    using t by (simp add: push_reply_def)
qed

lemma ex_thread_in_range: "path_in_range (hit_source ex_thread) []"
  by simp

theorem createComment_reply_returns_updated_target_witness:
  "schema_violations (is_email ex_env) (ex_arg (Val (''doc1'', [0])) (Val False)) = [] \<and>
   es_get [ex_thread] ''doc1'' = Inr ex_thread \<and>
   path_in_range (hit_source ex_thread) [0] \<and>
   createComment ex_env (ex_arg (Val (''doc1'', [0])) (Val False)) [ex_thread] =
     (Inr \<lparr>newComment = Val (comment_body ex_env (ex_arg (Val (''doc1'', [0])) (Val False))),
           repliedToComment =
             Val (Comment (ex_props ''p1'' ''r0'' True)
                    (Val [comment_body ex_env (ex_arg (Val (''doc1'', [0])) (Val False))]))\<rparr>,
      [\<lparr>hit_id = ''doc1'',
        hit_source =
          Comment (ex_props ''p1'' ''root'' True)
            (Val [Comment (ex_props ''p1'' ''r0'' True)
                    (Val [comment_body ex_env (ex_arg (Val (''doc1'', [0])) (Val False))])])\<rparr>])"
proof -
  have r: "path_in_range (hit_source ex_thread) [0]"
    by (simp add: ex_thread_def)
  have p: "recipient_path (ex_arg (Val (''doc1'', [0])) (Val False)) = Val (''doc1'', [0])"
    by (simp add: ex_arg_def)
  from createComment_reply_returns_updated_target [OF ex_arg_valid p ex_get_thread r]
  show ?thesis using ex_arg_valid ex_get_thread r
    by (simp add: ex_thread_def es_update_def push_reply_def)
qed

text \<open>
  The claim as stated fails: replying to the root of the example thread, whose replies
  were the one comment \<open>r0\<close>, returns a \<open>repliedToComment\<close> whose replies are \<open>r0\<close> and
  the new comment.
\<close>

theorem createComment_repliedToComment_counterexample:
  "hit_source ex_thread =
     Comment (ex_props ''p1'' ''root'' True) (Val [Comment (ex_props ''p1'' ''r0'' True) Undefined]) \<and>
   fst (createComment ex_env (ex_arg (Val (''doc1'', [])) (Val False)) [ex_thread]) =
     Inr \<lparr>newComment = Val (comment_body ex_env (ex_arg (Val (''doc1'', [])) (Val False))),
          repliedToComment =
            Val (Comment (ex_props ''p1'' ''root'' True)
                   (Val [Comment (ex_props ''p1'' ''r0'' True) Undefined,
                         comment_body ex_env (ex_arg (Val (''doc1'', [])) (Val False))]))\<rparr> \<and>
   fst (createComment ex_env (ex_arg (Val (''doc1'', [])) (Val False)) [ex_thread]) \<noteq>
     Inr \<lparr>newComment = Val (comment_body ex_env (ex_arg (Val (''doc1'', [])) (Val False))),
          repliedToComment = Val (hit_source ex_thread)\<rparr>"
proof -
  have p: "recipient_path (ex_arg (Val (''doc1'', [])) (Val False)) = Val (''doc1'', [])"
    by (simp add: ex_arg_def)
  show ?thesis
    by (simp add: createComment_reply [OF ex_arg_valid p ex_get_thread ex_thread_in_range]
        push_reply_def)
      (simp add: ex_thread_def)
qed

section \<open>Properties of the listing, the deletion and the statistics\<close>

lemma push_each: "foldl (\<lambda>acc hit. acc @ [hit]) items hs = items @ hs"
  by (induction hs arbitrary: items) simp_all

lemma getComments_loop_es:
  "0 < n \<Longrightarrow>
     getComments_loop (es_scroll n) \<lparr>page_hits = take n results, scroll_id = drop n results\<rparr> acc
       = Some (acc @ results)"
proof (induction results arbitrary: acc rule: length_induct)
  case (1 results)
  show ?case
  proof (cases "results = []")
    case True
    then show ?thesis by (subst getComments_loop.simps) simp
  next
    case False
    with 1(2) have shorter: "length (drop n results) < length results" by simp
    from False 1(2) have nonempty: "take n results \<noteq> []" by simp
    have "getComments_loop (es_scroll n)
            \<lparr>page_hits = take n results, scroll_id = drop n results\<rparr> acc =
          getComments_loop (es_scroll n)
            \<lparr>page_hits = take n (drop n results), scroll_id = drop n (drop n results)\<rparr>
            (acc @ take n results)"
      using nonempty by (subst getComments_loop.simps) (simp add: es_scroll_def)
    also have "\<dots> = Some ((acc @ take n results) @ drop n results)"
      using 1(1) shorter 1(2) by blast
    finally show ?thesis by simp
  qed
qed

lemma getAllComments_loop_es:
  "0 < n \<Longrightarrow>
     getAllComments_loop (es_scroll n) \<lparr>page_hits = take n results, scroll_id = drop n results\<rparr> acc
       = Some (acc @ results)"
proof (induction results arbitrary: acc rule: length_induct)
  case (1 results)
  show ?case
  proof (cases "results = []")
    case True
    then show ?thesis by (subst getAllComments_loop.simps) simp
  next
    case False
    with 1(2) have shorter: "length (drop n results) < length results" by simp
    from False 1(2) have nonempty: "take n results \<noteq> []" by simp
    have "getAllComments_loop (es_scroll n)
            \<lparr>page_hits = take n results, scroll_id = drop n results\<rparr> acc =
          getAllComments_loop (es_scroll n)
            \<lparr>page_hits = take n (drop n results), scroll_id = drop n (drop n results)\<rparr>
            (acc @ take n results)"
      using nonempty by (subst getAllComments_loop.simps) (simp add: es_scroll_def push_each)
    also have "\<dots> = Some ((acc @ take n results) @ drop n results)"
      using 1(1) shorter 1(2) by blast
    finally show ?thesis by simp
  qed
qed

lemma getComments_eq:
  "0 < n \<Longrightarrow> getComments n postIds st =
     Some (filterNotApproved (map with_id (getComments_results postIds st)))"
  by (simp add: getComments_def es_search_scroll_def getComments_loop_es)

lemma getAllComments_eq:
  "0 < n \<Longrightarrow> getAllComments n st = Some (map with_id st)"
  by (simp add: getAllComments_def es_search_scroll_def getAllComments_loop_es)

text \<open>
  C7. Each scan loop stops at a page with no hits, returning what it has gathered, and
  goes on to the next page otherwise. Over the index's paging, whatever the page size
  (not zero), both loops return exactly the matching documents, each once and in the
  order of the pages; so \<open>getAllComments\<close> returns every document of the index, and
  \<open>getComments\<close> the filtered results of its query.
\<close>

theorem scan_returns_all_results:
  "(page_hits resp = [] \<longrightarrow>
      getComments_loop scroll resp acc = Some acc \<and>
      getAllComments_loop scroll resp acc = Some acc) \<and>
   (page_hits resp \<noteq> [] \<longrightarrow>
      getComments_loop scroll resp acc =
        getComments_loop scroll (scroll (scroll_id resp)) (acc @ page_hits resp) \<and>
      getAllComments_loop scroll resp acc =
        getAllComments_loop scroll (scroll (scroll_id resp)) (acc @ page_hits resp)) \<and>
   (0 < n \<longrightarrow>
      getComments_loop (es_scroll n) (es_search_scroll n results) [] = Some results \<and>
      getAllComments_loop (es_scroll n) (es_search_scroll n results) [] = Some results \<and>
      getAllComments n st = Some (map with_id st) \<and>
      getComments n postIds st =
        Some (filterNotApproved (map with_id (getComments_results postIds st))))"
proof -
  have stop: "page_hits resp = [] \<longrightarrow>
      getComments_loop scroll resp acc = Some acc \<and>
      getAllComments_loop scroll resp acc = Some acc"
    by (subst getComments_loop.simps, subst getAllComments_loop.simps) simp
  have continue: "page_hits resp \<noteq> [] \<longrightarrow>
      getComments_loop scroll resp acc =
        getComments_loop scroll (scroll (scroll_id resp)) (acc @ page_hits resp) \<and>
      getAllComments_loop scroll resp acc =
        getAllComments_loop scroll (scroll (scroll_id resp)) (acc @ page_hits resp)"
    by (subst getComments_loop.simps, subst getAllComments_loop.simps) (simp add: push_each)
  have es: "0 < n \<longrightarrow>
      getComments_loop (es_scroll n) (es_search_scroll n results) [] = Some results \<and>
      getAllComments_loop (es_scroll n) (es_search_scroll n results) [] = Some results \<and>
      getAllComments n st = Some (map with_id st) \<and>
      getComments n postIds st =
        Some (filterNotApproved (map with_id (getComments_results postIds st)))"
    by (simp add: es_search_scroll_def getComments_loop_es getAllComments_loop_es
        getComments_eq getAllComments_eq)
  from stop continue es show ?thesis by blast
qed

theorem scan_returns_all_results_witness:
  "(0::nat) < 2 \<and>
   page_hits (es_search_scroll 2 [ex_doc ''a'' ''p1'' True, ex_doc ''b'' ''p1'' False,
                                  ex_doc ''c'' ''p2'' True]) \<noteq> [] \<and>
   page_hits (es_scroll 2 []) = [] \<and>
   getComments_loop (es_scroll 2) (es_scroll 2 []) [ex_doc ''a'' ''p1'' True] =
     Some [ex_doc ''a'' ''p1'' True] \<and>
   getComments_loop (es_scroll 2)
     (es_search_scroll 2 [ex_doc ''a'' ''p1'' True, ex_doc ''b'' ''p1'' False,
                          ex_doc ''c'' ''p2'' True]) [] =
     Some [ex_doc ''a'' ''p1'' True, ex_doc ''b'' ''p1'' False, ex_doc ''c'' ''p2'' True] \<and>
   getAllComments 2 [ex_doc ''a'' ''p1'' True, ex_doc ''b'' ''p1'' False, ex_doc ''c'' ''p2'' True] =
     Some [with_id (ex_doc ''a'' ''p1'' True), with_id (ex_doc ''b'' ''p1'' False),
           with_id (ex_doc ''c'' ''p2'' True)]"
  using scan_returns_all_results
    [of "es_scroll 2 []" "es_scroll 2" "[ex_doc ''a'' ''p1'' True]" 2
        "[ex_doc ''a'' ''p1'' True, ex_doc ''b'' ''p1'' False, ex_doc ''c'' ''p2'' True]"
        "[ex_doc ''a'' ''p1'' True, ex_doc ''b'' ''p1'' False, ex_doc ''c'' ''p2'' True]"]
  by (simp add: es_search_scroll_def es_scroll_def)

text \<open>
  C9. \<open>deletePostComments\<close> removes every document of the post and no other, and counts
  the removed ones; run again with the same id on the store it left, it removes nothing,
  reports zero deletions and leaves the store as it was.
\<close>

theorem deletePostComments_idempotent:
  "(\<forall>h \<in> set (snd (deletePostComments i st)). post_id (props (hit_source h)) \<noteq> Val i) \<and>
   (\<forall>h \<in> set st. post_id (props (hit_source h)) \<noteq> Val i \<longrightarrow>
        h \<in> set (snd (deletePostComments i st))) \<and>
   set (snd (deletePostComments i st)) \<subseteq> set st \<and>
   length st = deleted (fst (deletePostComments i st)) + length (snd (deletePostComments i st)) \<and>
   deletePostComments i (snd (deletePostComments i st)) =
     (\<lparr>deleted = 0\<rparr>, snd (deletePostComments i st))"
proof -
  have "length st =
      length (filter (\<lambda>h. post_id (props (hit_source h)) = Val i) st) +
      length (filter (\<lambda>h. post_id (props (hit_source h)) \<noteq> Val i) st)"
    using sum_length_filter_compl [of "\<lambda>h. post_id (props (hit_source h)) = Val i" st] by simp
  then show ?thesis
    by (auto simp add: deletePostComments_def)
qed

theorem deletePostComments_idempotent_witness:
  "deletePostComments ''p1'' [ex_doc ''a'' ''p1'' True, ex_doc ''c'' ''p2'' True, ex_doc ''b'' ''p1'' False] =
     (\<lparr>deleted = 2\<rparr>, [ex_doc ''c'' ''p2'' True]) \<and>
   deletePostComments ''p1'' [ex_doc ''c'' ''p2'' True] = (\<lparr>deleted = 0\<rparr>, [ex_doc ''c'' ''p2'' True])"
proof -
  have run: "deletePostComments ''p1''
      [ex_doc ''a'' ''p1'' True, ex_doc ''c'' ''p2'' True, ex_doc ''b'' ''p1'' False] =
     (\<lparr>deleted = 2\<rparr>, [ex_doc ''c'' ''p2'' True])"
    by (simp add: deletePostComments_def ex_doc_def ex_props_def)
  from deletePostComments_idempotent
    [of "''p1''" "[ex_doc ''a'' ''p1'' True, ex_doc ''c'' ''p2'' True, ex_doc ''b'' ''p1'' False]"]
  show ?thesis unfolding run by simp
qed



lemma count_post_id_terms:
  "count_list (post_id_terms hs) t =
     length (filter (\<lambda>h. post_id (props (hit_source h)) = Val t) hs)"
  by (induction hs) (auto simp: post_id_terms_def split: js.splits)

lemma es_terms_agg_length: "length (es_terms_agg n ts) \<le> n"
  by (simp add: es_terms_agg_def)

lemma es_terms_agg_count:
  "b \<in> set (es_terms_agg n ts) \<Longrightarrow> doc_count b = count_list ts (key b)"
proof -
  assume "b \<in> set (es_terms_agg n ts)"
  then have "b \<in> set (sort_key (\<lambda>b. - int (doc_count b))
       (map (\<lambda>t. \<lparr>key = t, doc_count = count_list ts t\<rparr>) (sort (remdups ts))))"
    unfolding es_terms_agg_def by (rule in_set_takeD)
  then show ?thesis by auto
qed

lemma find_bucket:
  "find (\<lambda>b. key b = k) bs = Some b \<Longrightarrow> b \<in> set bs \<and> key b = k"
  by (induction bs) (auto split: if_splits)

lemma find_bucket_None:
  "find (\<lambda>b. key b = k) bs = None \<Longrightarrow> k \<notin> key ` set bs"
  by (induction bs) (auto split: if_splits)

lemma attach_counts_Inr:
  "attach_counts bs ps = Inr r \<Longrightarrow>
     map mc_post r = ps \<and>
     (\<forall>e \<in> set r. \<exists>b \<in> set bs. key b = post_key (mc_post e) \<and> comments_count e = doc_count b)"
proof (induction ps arbitrary: r)
  case Nil
  then show ?case by simp
next
  case (Cons p ps)
  from Cons.prems obtain b r' where b: "find (\<lambda>b. key b = post_key p) bs = Some b"
    and r': "attach_counts bs ps = Inr r'"
    and r: "r = \<lparr>mc_post = p, comments_count = doc_count b\<rparr> # r'"
    by (auto split: option.splits sum.splits)
  from Cons.IH [OF r'] find_bucket [OF b] r show ?case by auto
qed

lemma attach_counts_total:
  "\<forall>p \<in> set ps. post_key p \<in> key ` set bs \<Longrightarrow> \<exists>r. attach_counts bs ps = Inr r"
proof (induction ps)
  case Nil
  then show ?case by simp
next
  case (Cons p ps)
  then obtain r where r: "attach_counts bs ps = Inr r" by auto
  from Cons.prems have "post_key p \<in> key ` set bs" by simp
  then obtain b where "find (\<lambda>b. key b = post_key p) bs = Some b"
    using find_bucket_None [of "post_key p" bs] by (cases "find (\<lambda>b. key b = post_key p) bs") auto
  with r show ?case by simp
qed

lemma getItemsByIds_length: "length (getItemsByIds posts ids) \<le> length ids"
  by (induction ids) (auto simp: getItemsByIds_def split: option.splits)

lemma getItemsByIds_keys: "p \<in> set (getItemsByIds posts ids) \<Longrightarrow> post_key p \<in> set ids"
  by (induction ids)
    (auto simp: getItemsByIds_def split: option.splits
      dest: find_Some_iff [THEN iffD1])

text \<open>
  C8. When the response has no aggregations, or its aggregations have no buckets,
  \<open>mostCommentedPosts\<close> and \<open>commentsByDate\<close> are empty. Whenever \<open>getStats\<close> returns,
  each entry carries the \<open>doc_count\<close> of the bucket of its post id. And when the
  blog-post service answers a list of ids with at most one post per id, each of an id
  asked for, \<open>getStats\<close> returns, \<open>mostCommentedPosts\<close> has at most 5 entries, and
  the \<open>comments_count\<close> of each is the number of matching comments of its post.
\<close>

theorem getStats_most_commented:
  fixes date_histogram :: "string js \<Rightarrow> hit list \<Rightarrow> 'h list"
    and resp :: "'h search_response"
  assumes one_each: "\<forall>ids. length (lookup ids) \<le> length ids"
    and only_asked: "\<forall>ids. \<forall>p \<in> set (lookup ids). post_key p \<in> set ids"
  shows
    "(resp_aggregations resp = Undefined \<longrightarrow>
        (\<exists>r. getStats_result lookup n resp = Inr r \<and>
              mostCommentedPosts r = [] \<and> commentsByDate r = [])) \<and>
     (\<forall>aggs. resp_aggregations resp = Val aggs \<and> post_ids_buckets aggs = [] \<and>
             comments_histogram_buckets aggs = [] \<longrightarrow>
        (\<exists>r. getStats_result lookup n resp = Inr r \<and>
              mostCommentedPosts r = [] \<and> commentsByDate r = [])) \<and>
     (\<forall>aggs r. resp_aggregations resp = Val aggs \<and> getStats_result any_lookup n resp = Inr r \<longrightarrow>
        (\<forall>e \<in> set (mostCommentedPosts r).
           \<exists>b \<in> set (post_ids_buckets aggs).
             key b = post_key (mc_post e) \<and> comments_count e = doc_count b)) \<and>
     (\<exists>r. getStats lookup date_histogram a st = Inr r \<and>
          length (mostCommentedPosts r) \<le> 5 \<and>
          (\<forall>e \<in> set (mostCommentedPosts r).
             comments_count e =
               length (filter (\<lambda>h. getStats_query a h \<and>
                   post_id (props (hit_source h)) = Val (post_key (mc_post e))) st)))"
proof -
  have none: "resp_aggregations resp = Undefined \<longrightarrow>
        (\<exists>r. getStats_result lookup n resp = Inr r \<and>
              mostCommentedPosts r = [] \<and> commentsByDate r = [])"
    by (simp add: getStats_result_def)
  have "lookup [] = []"
    using one_each [rule_format, of "[]"] by simp
  then have empty: "\<forall>aggs. resp_aggregations resp = Val aggs \<and> post_ids_buckets aggs = [] \<and>
             comments_histogram_buckets aggs = [] \<longrightarrow>
        (\<exists>r. getStats_result lookup n resp = Inr r \<and>
              mostCommentedPosts r = [] \<and> commentsByDate r = [])"
    by (simp add: getStats_result_def)
  have buckets: "\<forall>aggs r. resp_aggregations resp = Val aggs \<and>
        getStats_result any_lookup n resp = Inr r \<longrightarrow>
        (\<forall>e \<in> set (mostCommentedPosts r).
           \<exists>b \<in> set (post_ids_buckets aggs).
             key b = post_key (mc_post e) \<and> comments_count e = doc_count b)"
  proof (intro allI impI, elim conjE)
    fix aggs r
    assume a: "resp_aggregations resp = Val aggs"
      and r: "getStats_result any_lookup n resp = Inr r"
    from r a obtain mc where
      mc: "attach_counts (post_ids_buckets aggs) (any_lookup (map key (post_ids_buckets aggs))) = Inr mc"
      and "mostCommentedPosts r = mc"
      by (auto simp: getStats_result_def Let_def split: sum.splits)
    with attach_counts_Inr [OF mc]
    show "\<forall>e \<in> set (mostCommentedPosts r).
           \<exists>b \<in> set (post_ids_buckets aggs).
             key b = post_key (mc_post e) \<and> comments_count e = doc_count b"
      by simp
  qed
  define ms where "ms = filter (getStats_query a) st"
  define bs where "bs = es_terms_agg 5 (post_id_terms ms)"
  define ps where "ps = lookup (map key bs)"
  have "\<forall>p \<in> set ps. post_key p \<in> key ` set bs"
    using only_asked [rule_format, of _ "map key bs"] by (simp add: ps_def)
  from attach_counts_total [OF this] obtain mc where mc: "attach_counts bs ps = Inr mc" ..
  from attach_counts_Inr [OF mc]
  have posts: "map mc_post mc = ps"
    and each: "\<forall>e \<in> set mc. \<exists>b \<in> set bs. key b = post_key (mc_post e) \<and> comments_count e = doc_count b"
    by simp_all
  have "length mc = length ps"
    using posts [symmetric] by simp
  also have "\<dots> \<le> length bs"
    using one_each [rule_format, of "map key bs"] by (simp add: ps_def)
  also have "\<dots> \<le> 5"
    by (simp add: bs_def es_terms_agg_length)
  finally have len: "length mc \<le> 5" .
  have tally: "comments_count e =
      length (filter (\<lambda>h. getStats_query a h \<and>
          post_id (props (hit_source h)) = Val (post_key (mc_post e))) st)"
    if e: "e \<in> set mc" for e
  proof -
    from each e obtain b where b: "b \<in> set bs" "key b = post_key (mc_post e)"
      "comments_count e = doc_count b" by blast
    from es_terms_agg_count [OF b(1) [unfolded bs_def]] b
    have "comments_count e = count_list (post_id_terms ms) (post_key (mc_post e))" by simp
    then show ?thesis
      by (simp add: count_post_id_terms ms_def conj_commute)
  qed
  have "\<exists>r. getStats lookup date_histogram a st = Inr r \<and> mostCommentedPosts r = mc"
    using mc by (simp add: getStats_def getStats_result_def es_search_stats_def Let_def
        ms_def bs_def ps_def)
  with len tally have main: "\<exists>r. getStats lookup date_histogram a st = Inr r \<and>
          length (mostCommentedPosts r) \<le> 5 \<and>
          (\<forall>e \<in> set (mostCommentedPosts r).
             comments_count e =
               length (filter (\<lambda>h. getStats_query a h \<and>
                   post_id (props (hit_source h)) = Val (post_key (mc_post e))) st))"
    by auto
  from none empty buckets main show ?thesis by blast
qed

lemma ex_terms:
  "es_terms_agg 5 (post_id_terms ex_store) =
     [\<lparr>key = ''p1'', doc_count = 2\<rparr>, \<lparr>key = ''p2'', doc_count = 1\<rparr>]"
  by (simp add: es_terms_agg_def post_id_terms_def ex_store_def ex_doc_def ex_props_def)

lemma ex_stats:
  "getStats (getItemsByIds ex_posts) (\<lambda>iv hs. [length hs]) ex_stats_args ex_store =
     Inr \<lparr>commentsByDate = [3],
          mostCommentedPosts =
            [\<lparr>mc_post = \<lparr>post_key = ''p1'', post_title = ''First''\<rparr>, comments_count = 2\<rparr>,
             \<lparr>mc_post = \<lparr>post_key = ''p2'', post_title = ''Second''\<rparr>, comments_count = 1\<rparr>],
          recentComments = map with_id (rev ex_store),
          commentsCount = 3\<rparr>"
  by (simp add: getStats_def getStats_result_def es_search_stats_def es_count_def Let_def
      getStats_query_def ex_stats_args_def ex_terms getItemsByIds_def ex_posts_def)
    (simp add: ex_store_def ex_doc_def ex_props_def)

theorem getStats_most_commented_witness:
  "getStats (getItemsByIds ex_posts) (\<lambda>iv hs. [length hs]) ex_stats_args ex_store =
     Inr \<lparr>commentsByDate = [3],
          mostCommentedPosts =
            [\<lparr>mc_post = \<lparr>post_key = ''p1'', post_title = ''First''\<rparr>, comments_count = 2\<rparr>,
             \<lparr>mc_post = \<lparr>post_key = ''p2'', post_title = ''Second''\<rparr>, comments_count = 1\<rparr>],
          recentComments = map with_id (rev ex_store),
          commentsCount = 3\<rparr> \<and>
   length (filter (\<lambda>h. getStats_query ex_stats_args h \<and>
             post_id (props (hit_source h)) = Val ''p1'') ex_store) = 2 \<and>
   length (filter (\<lambda>h. getStats_query ex_stats_args h \<and>
             post_id (props (hit_source h)) = Val ''p2'') ex_store) = 1"
proof -
  have one_each: "\<forall>ids. length (getItemsByIds ex_posts ids) \<le> length ids"
    by (simp add: getItemsByIds_length)
  have only_asked: "\<forall>ids. \<forall>p \<in> set (getItemsByIds ex_posts ids). post_key p \<in> set ids"
    by (simp add: getItemsByIds_keys)
  from getStats_most_commented [OF one_each only_asked,
      where date_histogram = "\<lambda>iv hs. [length hs]" and a = ex_stats_args and st = ex_store]
  show ?thesis
    unfolding ex_stats by simp
qed

section \<open>The created comment in the thread and in the listing\<close>

lemma es_get_in_store: "es_get st d = Inr h \<Longrightarrow> h \<in> set st \<and> hit_id h = d"
  by (induction st) (auto simp: es_get_def split: if_splits)

lemma props_modify_at:
  "(\<And>n. props (f n) = props n) \<Longrightarrow> props (modify_at f a c) = props c"
  by (cases a) (auto split: js.splits)

lemma props_push_reply [simp]: "props (push_reply b n) = props n"
  by (simp add: push_reply_def)


lemma filterNotApproved_update:
  "k < length rs \<Longrightarrow>
     filterNotApproved (rs[k := c]) =
       filterNotApproved (take k rs) @ filterNotApproved [c] @ filterNotApproved (drop (Suc k) rs)"
  by (simp add: upd_conv_take_nth_drop filterNotApproved_append)

lemma filterNotApproved_split:
  "k < length rs \<Longrightarrow>
     filterNotApproved rs =
       filterNotApproved (take k rs) @ filterNotApproved [rs ! k] @ filterNotApproved (drop (Suc k) rs)"
  using filterNotApproved_update [of k rs "rs ! k"] by simp

lemma stored_reply_address:
  assumes "node_at doc a = Val (push_reply b T)"
  shows "node_at doc (a @ [length (or_empty (replies T))]) = Val b"
  using assms by (simp add: node_at_append push_reply_def)

text \<open>Appending a node that is not approved changes nothing of what the filter returns.\<close>

lemma filterNotApproved_push_unapproved:
  "\<not> approved (props b) \<Longrightarrow> path_in_range src is \<Longrightarrow>
     filterNotApproved [modify_at (push_reply b) (map nat is) src] = filterNotApproved [src]"
proof (induction "is" arbitrary: src)
  case Nil
  then show ?case
    by (cases src) (simp add: push_reply_def filterNotApproved_append)
next
  case (Cons i "is")
  from Cons.prems(2) obtain rs where rs: "replies src = Val rs"
    by (cases "replies src") auto
  with Cons.prems(2) have k: "nat i < length rs" and rest: "path_in_range (rs ! nat i) is"
    by auto
  have "filterNotApproved [modify_at (push_reply b) (map nat is) (rs ! nat i)] =
      filterNotApproved [rs ! nat i]"
    by (rule Cons.IH [OF Cons.prems(1) rest])
  then have "filterNotApproved (rs[nat i := modify_at (push_reply b) (map nat is) (rs ! nat i)]) =
      filterNotApproved rs"
    using filterNotApproved_update [OF k] filterNotApproved_split [OF k] by simp
  then show ?case
    using rs k by simp
qed


lemma insort_key_map_same_key:
  "k (g x) = k x \<Longrightarrow> \<forall>z \<in> set zs. k (g z) = k z \<Longrightarrow>
     insort_key k (g x) (map g zs) = map g (insort_key k x zs)"
  by (induction zs) simp_all

lemma sort_key_map_same_key:
  "\<forall>x \<in> set xs. k (g x) = k x \<Longrightarrow> sort_key k (map g xs) = map g (sort_key k xs)"
  by (induction xs) (simp_all add: insort_key_map_same_key)

lemma filterNotApproved_map_cong:
  "\<forall>x \<in> set xs. filterNotApproved [F x] = filterNotApproved [G x] \<Longrightarrow>
     filterNotApproved (map F xs) = filterNotApproved (map G xs)"
proof (induction xs)
  case Nil
  then show ?case by simp
next
  case (Cons x xs)
  have "filterNotApproved (map F (x # xs)) = filterNotApproved [F x] @ filterNotApproved (map F xs)"
    using filterNotApproved_append [of "[F x]" "map F xs"] by simp
  also have "\<dots> = filterNotApproved [G x] @ filterNotApproved (map G xs)"
    using Cons by simp
  also have "\<dots> = filterNotApproved (map G (x # xs))"
    using filterNotApproved_append [of "[G x]" "map G xs"] by simp
  finally show ?case .
qed

lemma filterNotApproved_with_id:
  assumes "props d' = props (hit_source h)"
    and "filterNotApproved [d'] = filterNotApproved [hit_source h]"
  shows "filterNotApproved [with_id (h\<lparr>hit_source := d'\<rparr>)] = filterNotApproved [with_id h]"
proof -
  have "filterNotApproved (or_empty (replies d')) =
      filterNotApproved (or_empty (replies (hit_source h)))"
    if "approved (props (hit_source h))"
    using assms that by simp
  then show ?thesis
    using assms(1) by (simp add: with_id_def)
qed

text \<open>
  Replacing the source of the document \<open>h\<close> by one with the same properties and the same
  filtered thread leaves the listing as it was, when the ids of the index are distinct.
\<close>

lemma getComments_es_update_same:
  assumes n: "0 < n" and dist: "distinct (map hit_id st)"
    and h: "es_get st d = Inr h"
    and p: "props d' = props (hit_source h)"
    and f: "filterNotApproved [d'] = filterNotApproved [hit_source h]"
  shows "getComments n ps (es_update st d d') = getComments n ps st"
proof -
  let ?g = "\<lambda>x. if hit_id x = d then x\<lparr>hit_source := d'\<rparr> else x"
  from es_get_in_store [OF h] have hin: "h \<in> set st" and hid: "hit_id h = d" by simp_all
  have only: "x = h" if "x \<in> set st" "hit_id x = d" for x
    using that hin hid dist by (auto simp: distinct_map dest: inj_onD)
  have same_props: "props (hit_source (?g x)) = props (hit_source x)" if "x \<in> set st" for x
  proof (cases "hit_id x = d")
    case True
    with only [OF that] p show ?thesis by simp
  next
    case False
    then show ?thesis by simp
  qed
  have same_filter: "filterNotApproved [with_id (?g x)] = filterNotApproved [with_id x]"
    if "x \<in> set st" for x
  proof (cases "hit_id x = d")
    case True
    with only [OF that] have "x = h" by simp
    with True filterNotApproved_with_id [OF p f] show ?thesis by simp
  next
    case False
    then show ?thesis by simp
  qed
  have q: "getComments_query ps (?g x) = getComments_query ps x" if "x \<in> set st" for x
    using same_props [OF that] by (simp add: getComments_query_def)
  have "filter (getComments_query ps) (map ?g st) =
      map ?g (filter (\<lambda>x. getComments_query ps (?g x)) st)"
    by (simp add: filter_map comp_def)
  also have "filter (\<lambda>x. getComments_query ps (?g x)) st = filter (getComments_query ps) st"
    by (rule filter_cong) (simp_all add: q)
  finally have "getComments_results ps (map ?g st) =
      sort_key (\<lambda>h. published_at (props (hit_source h)))
        (map ?g (filter (getComments_query ps) st))"
    by (simp add: getComments_results_def)
  also have "\<dots> = map ?g (getComments_results ps st)"
    unfolding getComments_results_def
    by (rule sort_key_map_same_key) (use same_props in auto)
  finally have res: "getComments_results ps (es_update st d d') = map ?g (getComments_results ps st)"
    by (simp add: es_update_def)
  have "filterNotApproved (map (\<lambda>x. with_id (?g x)) (getComments_results ps st)) =
      filterNotApproved (map with_id (getComments_results ps st))"
    by (rule filterNotApproved_map_cong) (use same_filter in \<open>auto simp: getComments_results_def\<close>)
  then show ?thesis
    by (simp add: getComments_eq [OF n] res comp_def)
qed

lemma getComments_append_unlisted:
  "\<not> getComments_query ps x \<Longrightarrow> 0 < n \<Longrightarrow> getComments n ps (st @ [x]) = getComments n ps st"
  by (simp add: getComments_eq getComments_results_def)

lemma createComment_success:
  assumes "createComment e c st = (Inr r, st')"
  shows "schema_violations (is_email e) c = [] \<and>
    (recipient_path c = Null \<and>
       r = \<lparr>newComment = Undefined, repliedToComment = Null\<rparr> \<and>
       st' = st @ [\<lparr>hit_id = es_auto_id e, hit_source = comment_body e c\<rparr>] \<or>
     (\<exists>d is h. recipient_path c = Val (d, is) \<and> es_get st d = Inr h \<and>
        path_in_range (hit_source h) is \<and>
        r = \<lparr>newComment = Val (comment_body e c),
              repliedToComment =
                Val (push_reply (comment_body e c) (target_node (hit_source h) is))\<rparr> \<and>
        st' = es_update st d
                (modify_at (push_reply (comment_body e c)) (map nat is) (hit_source h))))"
proof (cases "schema_violations (is_email e) c")
  case (Cons v vs)
  from createComment_invalid [OF Cons] assms show ?thesis by simp
next
  case Nil
  show ?thesis
  proof (cases "recipient_path c")
    case Undefined
    with valid_recipient_path [OF Nil] show ?thesis by simp
  next
    case Null
    from createComment_root [OF Nil Null] assms Nil Null show ?thesis by simp
  next
    case (Val p)
    obtain d "is" where p: "p = (d, is)" by (cases p)
    show ?thesis
    proof (cases "es_get st d")
      case (Inl err)
      from createComment_get_fails [OF Nil Val [unfolded p] Inl] assms show ?thesis by simp
    next
      case (Inr h)
      show ?thesis
      proof (cases "path_in_range (hit_source h) is")
        case True
        from createComment_reply [OF Nil Val [unfolded p] Inr True] assms
        show ?thesis using Nil Val p Inr True by auto
      next
        case False
        from createComment_out_of_range [OF Nil Val [unfolded p] Inr False] assms
        show ?thesis by simp
      qed
    qed
  qed
qed

lemma stored_reply:
  assumes "path_in_range src is"
  shows "node_at (modify_at (push_reply b) (map nat is) src)
           (map nat is @ [length (or_empty (replies (target_node src is)))]) = Val b"
proof -
  have "node_at src (map nat is) = Val (target_node src is)"
    using descend_in_range [of src "[]" src "is"] assms by simp
  from node_at_modify_at [OF this, of "push_reply b"] show ?thesis
    by (rule stored_reply_address)
qed

text \<open>
  C5. When \<open>createComment\<close> succeeds, the comment it creates is \<open>body\<close>, whose
  \<open>approved\<close> is the negation of the caller's \<open>spam\<close> and whose \<open>spam\<close> is the caller's:
  a root comment is stored as the source of the new document, a reply is returned as
  \<open>newComment\<close> and stored as the last reply of the target node in the updated
  document. With \<open>spam = true\<close> the stored comment is not approved; whatever replies
  it has got and wherever it stands, the filter returns nothing of it and the query of
  the listing does not match it; and the listing after the creation is the listing
  before it (for a reply, in an index with distinct ids).
\<close>

theorem createComment_approved_is_not_spam:
  assumes "createComment e c st = (Inr r, st')"
  defines "body \<equiv> comment_body e c"
  shows "approved (props body) = (\<not> truthy (spam c)) \<and>
         spam (props body) = spam c \<and>
         (recipient_path c = Null \<longrightarrow>
            st' = st @ [\<lparr>hit_id = es_auto_id e, hit_source = body\<rparr>]) \<and>
         (\<forall>d is. recipient_path c = Val (d, is) \<longrightarrow>
            (\<exists>h. es_get st d = Inr h \<and> path_in_range (hit_source h) is \<and>
                 newComment r = Val body \<and>
                 st' = es_update st d (modify_at (push_reply body) (map nat is) (hit_source h)) \<and>
                 es_get st' d =
                   Inr (h\<lparr>hit_source := modify_at (push_reply body) (map nat is) (hit_source h)\<rparr>) \<and>
                 node_at (modify_at (push_reply body) (map nat is) (hit_source h))
                   (map nat is @ [length (or_empty (replies (target_node (hit_source h) is)))])
                   = Val body)) \<and>
         (recipient_path c = Null \<or> (\<exists>d is. recipient_path c = Val (d, is))) \<and>
         (spam c = Val True \<longrightarrow>
            \<not> approved (props body) \<and>
            (\<forall>rs xs ys. filterNotApproved (xs @ Comment (props body) rs # ys) =
                          filterNotApproved xs @ filterNotApproved ys) \<and>
            (\<forall>rs i ps. \<not> getComments_query ps \<lparr>hit_id = i, hit_source = Comment (props body) rs\<rparr>) \<and>
            (\<forall>n ps. 0 < n \<and> distinct (map hit_id st) \<longrightarrow>
                      getComments n ps st' = getComments n ps st))"
proof -
  have own: "approved (props body) = (\<not> truthy (spam c))" "spam (props body) = spam c"
    by (simp_all add: body_def comment_body_def)
  have hidden: "\<not> approved (props body) \<and>
            (\<forall>rs xs ys. filterNotApproved (xs @ Comment (props body) rs # ys) =
                          filterNotApproved xs @ filterNotApproved ys) \<and>
            (\<forall>rs i ps. \<not> getComments_query ps \<lparr>hit_id = i, hit_source = Comment (props body) rs\<rparr>)"
    if "spam c = Val True"
    using that own by (simp add: filterNotApproved_append getComments_query_def)
  from createComment_success [OF assms(1)]
  consider (root) "recipient_path c = Null"
      "st' = st @ [\<lparr>hit_id = es_auto_id e, hit_source = body\<rparr>]"
    | (reply) d "is" h where "recipient_path c = Val (d, is)" "es_get st d = Inr h"
      "path_in_range (hit_source h) is" "newComment r = Val body"
      "st' = es_update st d (modify_at (push_reply body) (map nat is) (hit_source h))"
    unfolding body_def by auto
  then show ?thesis
  proof cases
    case root
    have "getComments n ps st' = getComments n ps st" if "spam c = Val True" "0 < n" for n ps
    proof -
      have "body = Comment (props body) (replies body)" by simp
      with hidden [OF that(1)]
      have "\<not> getComments_query ps \<lparr>hit_id = es_auto_id e, hit_source = body\<rparr>" by metis
      from getComments_append_unlisted [OF this that(2)] root(2) show ?thesis by simp
    qed
    with own hidden root show ?thesis by auto
  next
    case reply
    let ?doc = "modify_at (push_reply body) (map nat is) (hit_source h)"
    have stored: "es_get st' d = Inr (h\<lparr>hit_source := ?doc\<rparr>)"
      unfolding reply(5) by (rule es_get_es_update [OF reply(2)])
    have at: "node_at ?doc (map nat is @ [length (or_empty (replies (target_node (hit_source h) is)))])
        = Val body"
      by (rule stored_reply [OF reply(3)])
    have "getComments n ps st' = getComments n ps st"
      if "spam c = Val True" "0 < n" "distinct (map hit_id st)" for n ps
    proof -
      from hidden [OF that(1)] have "\<not> approved (props body)" by simp
      from filterNotApproved_push_unapproved [OF this reply(3)]
      have f: "filterNotApproved [?doc] = filterNotApproved [hit_source h]" .
      have p: "props ?doc = props (hit_source h)"
        by (rule props_modify_at) simp
      show ?thesis
        unfolding reply(5) by (rule getComments_es_update_same [OF that(2,3) reply(2) p f])
    qed
    with own hidden reply stored at show ?thesis by auto
  qed
qed


lemma ex_listing:
  "getComments 10 [''p1''] [ex_thread] =
     Some [Comment ((ex_props ''p1'' ''root'' True)\<lparr>doc_id := Val ''doc1''\<rparr>)
             (Val [Comment (ex_props ''p1'' ''r0'' True) (Val [])])]"
  by (simp add: getComments_eq getComments_results_def getComments_query_def with_id_def
      ex_thread_def ex_props_def)

theorem createComment_approved_is_not_spam_witness:
  "createComment ex_env (ex_arg (Val (''doc1'', [0])) (Val True)) [ex_thread] =
     (Inr \<lparr>newComment = Val (comment_body ex_env (ex_arg (Val (''doc1'', [0])) (Val True))),
           repliedToComment =
             Val (Comment (ex_props ''p1'' ''r0'' True)
                    (Val [comment_body ex_env (ex_arg (Val (''doc1'', [0])) (Val True))]))\<rparr>,
      [\<lparr>hit_id = ''doc1'',
        hit_source =
          Comment (ex_props ''p1'' ''root'' True)
            (Val [Comment (ex_props ''p1'' ''r0'' True)
                    (Val [comment_body ex_env (ex_arg (Val (''doc1'', [0])) (Val True))])])\<rparr>]) \<and>
   \<not> approved (props (comment_body ex_env (ex_arg (Val (''doc1'', [0])) (Val True)))) \<and>
   spam (props (comment_body ex_env (ex_arg (Val (''doc1'', [0])) (Val True)))) = Val True \<and>
   getComments 10 [''p1'']
     [\<lparr>hit_id = ''doc1'',
       hit_source =
         Comment (ex_props ''p1'' ''root'' True)
           (Val [Comment (ex_props ''p1'' ''r0'' True)
                   (Val [comment_body ex_env (ex_arg (Val (''doc1'', [0])) (Val True))])])\<rparr>] =
     Some [Comment ((ex_props ''p1'' ''root'' True)\<lparr>doc_id := Val ''doc1''\<rparr>)
             (Val [Comment (ex_props ''p1'' ''r0'' True) (Val [])])]"
proof -
  let ?c = "ex_arg (Val (''doc1'', [0])) (Val True)"
  have r: "path_in_range (hit_source ex_thread) [0]"
    by (simp add: ex_thread_def)
  have p: "recipient_path ?c = Val (''doc1'', [0])" and s: "spam ?c = Val True"
    by (simp_all add: ex_arg_def)
  have run: "createComment ex_env ?c [ex_thread] =
     (Inr \<lparr>newComment = Val (comment_body ex_env ?c),
           repliedToComment =
             Val (Comment (ex_props ''p1'' ''r0'' True) (Val [comment_body ex_env ?c]))\<rparr>,
      [\<lparr>hit_id = ''doc1'',
        hit_source =
          Comment (ex_props ''p1'' ''root'' True)
            (Val [Comment (ex_props ''p1'' ''r0'' True) (Val [comment_body ex_env ?c])])\<rparr>])"
    by (simp add: createComment_reply [OF ex_arg_valid p ex_get_thread r])
      (simp add: ex_thread_def es_update_def push_reply_def)
  have d: "distinct (map hit_id [ex_thread])" by simp
  from createComment_approved_is_not_spam [OF run] s d
  have "\<not> approved (props (comment_body ex_env ?c))"
    and "spam (props (comment_body ex_env ?c)) = Val True"
    and "getComments 10 [''p1'']
     [\<lparr>hit_id = ''doc1'',
       hit_source =
         Comment (ex_props ''p1'' ''root'' True)
           (Val [Comment (ex_props ''p1'' ''r0'' True) (Val [comment_body ex_env ?c])])\<rparr>] =
      getComments 10 [''p1''] [ex_thread]"
    by simp_all
  with run ex_listing show ?thesis by simp
qed




end
